theory Spec2Isabelle
  imports Main
begin

section \<open>The proxy selector of \<^verbatim>\<open>proxy.py\<close>\<close>

text \<open>
  The class \<^verbatim>\<open>Proxy\<close> keeps three entries in a persistent key-value cache
  (\<^verbatim>\<open>working_proxy\<close>, \<^verbatim>\<open>http_proxies_requested\<close>, \<^verbatim>\<open>bad_proxies\<close>), fetches a JSON
  list of proxies over HTTP and probes proxies until one answers. The cache, the list
  source and the probed proxies are outside the program: the cache is modelled as a
  store with per-entry expiry, the source and the proxies as oracles of one call.
\<close>

subsection \<open>Data\<close>

text \<open>Exceptions that reach the caller of a coroutine of the class.\<close>

datatype error = ClientError | ContentTypeError | JSONDecodeError | KeyError

text \<open>
  What the GET of the list URL and \<^verbatim>\<open>response.json()\<close> yield. The request fails
  (\<^verbatim>\<open>aiohttp.ClientError\<close>), or the reply does not have a JSON content type
  (\<^verbatim>\<open>aiohttp.ContentTypeError\<close>), or its body is not JSON (\<^verbatim>\<open>JSONDecodeError\<close>), or
  it is a JSON array of objects. The fields of an object are strings, as in the lists
  the class is written for; an object may lack the \<^verbatim>\<open>proxy\<close> field. A JSON value of
  another shape (not an array, an element that is not an object, a field that is not a
  string) is outside the model, and no property below speaks about such a reply.
\<close>

type_synonym json_object = "(string \<times> string) list"

datatype reply =
    ConnectionFailed
  | WrongContentType
  | InvalidJSON
  | JsonArray "json_object list"

text \<open>What a request through a proxy yields: a status code, or an exception.\<close>

datatype response = Status int | Failed

datatype key = WorkingProxy | HttpProxiesRequested | BadProxies

text \<open>
  The observable effects of a call, in the order the code performs them. The
  \<^typ>\<open>int option\<close> of a cache write is the \<^verbatim>\<open>expire\<close> argument of \<^verbatim>\<open>cache.set\<close>
  (\<open>None\<close> when the argument is left out).
\<close>

datatype event =
    HttpGet string
  | Revalidate string bool
  | BatchTest "string list"
  | BatchResult string bool
  | Probe string bool
  | CacheSetWorking string "int option"
  | CacheSetList "string list" "int option"
  | CacheSetBad "string set" "int option"
  | CacheDelete key

text \<open>The attributes set by \<^verbatim>\<open>__init__\<close>; \<^verbatim>\<open>self.cache\<close> is the state below.\<close>

record Proxy =
  proxy_url :: "string option"
  batch_size :: int
  cache_expiry :: int

text \<open>
  The cache holds, per key, a value and the absolute time at which it expires
  (\<open>None\<close>: never). The class only ever stores a string under \<^verbatim>\<open>working_proxy\<close>, a
  list under \<^verbatim>\<open>http_proxies_requested\<close> and a set under \<^verbatim>\<open>bad_proxies\<close>, so each
  key has a slot of that type. \<open>trace\<close> is the log of effects.
\<close>

record state =
  working_proxy :: "(string \<times> int option) option"
  http_proxies_requested :: "(string list \<times> int option) option"
  bad_proxies :: "(string set \<times> int option) option"
  trace :: "event list"

text \<open>
  The surroundings of one call of \<^verbatim>\<open>get_proxy\<close>: the clock (the call is taken to be
  instantaneous for the expiry of cache entries), the reply of the list source, the
  response to the revalidation request, to the request of the \<open>i\<close>-th task of a batch
  and to the \<open>n\<close>-th sequential attempt, and the time at which the \<open>i\<close>-th task of a
  batch completes.
\<close>

record env =
  now :: int
  source :: reply
  probe_cached :: "string \<Rightarrow> response"
  probe_batch :: "nat \<Rightarrow> string \<Rightarrow> response"
  probe_seq :: "nat \<Rightarrow> string \<Rightarrow> response"
  latency :: "nat \<Rightarrow> nat"

subsection \<open>The cache\<close>

text \<open>\<^verbatim>\<open>cache.get(key)\<close> at time \<open>t\<close>: the value of an entry that has not expired.\<close>

fun live :: "int \<Rightarrow> ('a \<times> int option) option \<Rightarrow> 'a option" where
  "live t None = None"
| "live t (Some (v, None)) = Some v"
| "live t (Some (v, Some x)) = (if t < x then Some v else None)"

text \<open>\<^verbatim>\<open>cache.set\<close> stores \<^verbatim>\<open>now + expire\<close> as the expiry time, or none.\<close>

definition expire_time :: "int \<Rightarrow> int option \<Rightarrow> int option" where
  "expire_time t ex = (case ex of None \<Rightarrow> None | Some d \<Rightarrow> Some (t + d))"

definition emit :: "event \<Rightarrow> state \<Rightarrow> state" where
  "emit ev s = s\<lparr>trace := trace s @ [ev]\<rparr>"

definition set_working_proxy :: "env \<Rightarrow> string \<Rightarrow> int option \<Rightarrow> state \<Rightarrow> state" where
  "set_working_proxy e v ex s =
     emit (CacheSetWorking v ex) (s\<lparr>working_proxy := Some (v, expire_time (now e) ex)\<rparr>)"

definition set_http_proxies_requested ::
  "env \<Rightarrow> string list \<Rightarrow> int option \<Rightarrow> state \<Rightarrow> state" where
  "set_http_proxies_requested e v ex s =
     emit (CacheSetList v ex) (s\<lparr>http_proxies_requested := Some (v, expire_time (now e) ex)\<rparr>)"

definition set_bad_proxies :: "env \<Rightarrow> string set \<Rightarrow> int option \<Rightarrow> state \<Rightarrow> state" where
  "set_bad_proxies e v ex s =
     emit (CacheSetBad v ex) (s\<lparr>bad_proxies := Some (v, expire_time (now e) ex)\<rparr>)"

fun cache_delete :: "key \<Rightarrow> state \<Rightarrow> state" where
  "cache_delete WorkingProxy s = emit (CacheDelete WorkingProxy) (s\<lparr>working_proxy := None\<rparr>)"
| "cache_delete HttpProxiesRequested s =
     emit (CacheDelete HttpProxiesRequested) (s\<lparr>http_proxies_requested := None\<rparr>)"
| "cache_delete BadProxies s = emit (CacheDelete BadProxies) (s\<lparr>bad_proxies := None\<rparr>)"

text \<open>\<^verbatim>\<open>self.cache.get('bad_proxies', set())\<close>\<close>

definition get_bad_proxies :: "env \<Rightarrow> state \<Rightarrow> string set" where
  "get_bad_proxies e s = (case live (now e) (bad_proxies s) of None \<Rightarrow> {} | Some b \<Rightarrow> b)"

subsection \<open>Strings and slices\<close>

fun startswith :: "string \<Rightarrow> string \<Rightarrow> bool" where
  "startswith [] hay = True"
| "startswith (c # cs) [] = False"
| "startswith (c # cs) (h # hs) = (c = h \<and> startswith cs hs)"

text \<open>Python's \<^verbatim>\<open>needle in hay\<close> on strings: the needle occurs at some position.\<close>

fun contains :: "string \<Rightarrow> string \<Rightarrow> bool" where
  "contains needle [] = startswith needle []"
| "contains needle (h # hs) = (startswith needle (h # hs) \<or> contains needle hs)"

text \<open>
  Python's \<^verbatim>\<open>xs[0:n]\<close>: a negative \<open>n\<close> counts from the end, and the bound is
  clamped to the list.
\<close>

definition slice_to :: "'a list \<Rightarrow> int \<Rightarrow> 'a list" where
  "slice_to xs n = (if 0 \<le> n then take (nat n) xs else take (nat (int (length xs) + n)) xs)"

text \<open>Python's truth value of a \<^verbatim>\<open>str | None\<close>.\<close>

definition truthy :: "string option \<Rightarrow> bool" where
  "truthy p = (case p of None \<Rightarrow> False | Some x \<Rightarrow> x \<noteq> [])"

subsection \<open>The methods of the class\<close>

text \<open>
  \<^verbatim>\<open>_test_single_proxy\<close>: the proxy works when the request through it answers with
  status 200; an exception of the request is swallowed.
\<close>

definition test_single_proxy :: "response \<Rightarrow> string \<Rightarrow> string \<times> bool" where
  "test_single_proxy r proxy =
     (case r of
        Status c \<Rightarrow> if c = 200 then (proxy, True) else (proxy, False)
      | Failed \<Rightarrow> (proxy, False))"

text \<open>\<^verbatim>\<open>_cache_bad_proxy\<close>\<close>

definition cache_bad_proxy :: "env \<Rightarrow> string \<Rightarrow> state \<Rightarrow> state" where
  "cache_bad_proxy e bad_proxy s =
     (let bad = get_bad_proxies e s;
          bad' = insert bad_proxy bad
      in set_bad_proxies e bad' None s)"

text \<open>
  \<^verbatim>\<open>_test_proxy_batch\<close>. One task per proxy is created, so every proxy of the list
  is requested; \<^verbatim>\<open>asyncio.as_completed\<close> hands the results over in the order of
  completion, and the loop stops at the first working one.
\<close>

fun batch_results :: "env \<Rightarrow> (string \<times> bool) list \<Rightarrow> state \<Rightarrow> string option \<times> state" where
  "batch_results e [] s = (None, s)"
| "batch_results e ((proxy, is_working) # rest) s =
     (let s1 = emit (BatchResult proxy is_working) s in
      if is_working then (Some proxy, set_working_proxy e proxy None s1)
      else batch_results e rest (cache_bad_proxy e proxy s1))"

definition as_completed :: "env \<Rightarrow> 'a list \<Rightarrow> 'a list" where
  "as_completed e tasks = map (\<lambda>i. tasks ! i) (sort_key (latency e) [0..<length tasks])"

definition test_proxy_batch :: "env \<Rightarrow> string list \<Rightarrow> state \<Rightarrow> string option \<times> state" where
  "test_proxy_batch e proxy_list s =
     (let tasks = map (\<lambda>i. test_single_proxy (probe_batch e i (proxy_list ! i)) (proxy_list ! i))
                      [0..<length proxy_list]
      in batch_results e (as_completed e tasks) (emit (BatchTest proxy_list) s))"

text \<open>
  The \<^verbatim>\<open>while\<close> loop of \<^verbatim>\<open>_fetch_proxy\<close>: \<open>all_proxies\<close> is the deque, \<open>attempts\<close>
  the counter.
\<close>

fun sequential :: "env \<Rightarrow> int \<Rightarrow> nat \<Rightarrow> string list \<Rightarrow> state \<Rightarrow> string option \<times> state" where
  "sequential e max_attempts attempts [] s = (None, s)"
| "sequential e max_attempts attempts (proxy # all_proxies) s =
     (if int attempts < max_attempts then
        (let attempts' = attempts + 1;
             is_working = snd (test_single_proxy (probe_seq e attempts' proxy) proxy);
             s1 = emit (Probe proxy is_working) s
         in if is_working then (Some proxy, set_working_proxy e proxy None s1)
            else sequential e max_attempts attempts' all_proxies (cache_bad_proxy e proxy s1))
      else (None, s))"

text \<open>Lines 137 to 167 of \<^verbatim>\<open>_fetch_proxy\<close>, which both branches of the cache test reach.\<close>

definition max_attempts_of :: "Proxy \<Rightarrow> string list \<Rightarrow> int" where
  "max_attempts_of self all_proxies = min (batch_size self) (int (length all_proxies))"

definition test_proxies :: "Proxy \<Rightarrow> env \<Rightarrow> string list \<Rightarrow> state \<Rightarrow> string option \<times> state" where
  "test_proxies self e all_proxies s =
     (let max_attempts = max_attempts_of self all_proxies in
      if batch_size self \<le> int (length all_proxies) then
        (case test_proxy_batch e all_proxies s of
           (proxy, s1) \<Rightarrow>
             if truthy proxy then (proxy, s1)
             else sequential e max_attempts 0 all_proxies s1)
      else sequential e max_attempts 0 all_proxies s)"

text \<open>
  The list comprehension over the JSON reply: \<^verbatim>\<open>proxy['proxy']\<close> raises
  \<^verbatim>\<open>KeyError\<close> on an object without the field.
\<close>

fun parse :: "json_object list \<Rightarrow> error + string list" where
  "parse [] = Inr []"
| "parse (proxy # response_json) =
     (case map_of proxy ''proxy'' of
        None \<Rightarrow> Inl KeyError
      | Some p \<Rightarrow>
          (case parse response_json of
             Inl err \<Rightarrow> Inl err
           | Inr ps \<Rightarrow>
               if \<not> (contains ''172.67'' p \<or> contains ''172.64'' p) then Inr (p # ps)
               else Inr ps))"

text \<open>
  \<^verbatim>\<open>_fetch_proxy\<close>. Nothing catches an exception of \<^verbatim>\<open>session.get\<close>, of
  \<^verbatim>\<open>response.json()\<close> or of the list comprehension: it leaves the method, and
  \<^verbatim>\<open>get_proxy\<close> with it. On an empty list the code writes \<^verbatim>\<open>self.get_proxy()\<close> without
  \<^verbatim>\<open>await\<close>: that builds a coroutine object and runs nothing of its body, so the
  statement has no effect and the method goes on.
\<close>

definition fetch_proxy :: "Proxy \<Rightarrow> env \<Rightarrow> state \<Rightarrow> (error + string option) \<times> state" where
  "fetch_proxy self e s =
     (case proxy_url self of
        None \<Rightarrow> (Inr None, s)
      | Some url \<Rightarrow>
          (case live (now e) (http_proxies_requested s) of
             None \<Rightarrow>
               (let s1 = emit (HttpGet url) s in
                case source e of
                  ConnectionFailed \<Rightarrow> (Inl ClientError, s1)
                | WrongContentType \<Rightarrow> (Inl ContentTypeError, s1)
                | InvalidJSON \<Rightarrow> (Inl JSONDecodeError, s1)
                | JsonArray response_json \<Rightarrow>
                    (case parse response_json of
                       Inl err \<Rightarrow> (Inl err, s1)
                     | Inr parsed \<Rightarrow>
                         (let bad = get_bad_proxies e s1;
                              proxy_list = filter (\<lambda>proxy. proxy \<notin> bad) parsed;
                              s2 = (if length proxy_list = 0
                                    then cache_delete HttpProxiesRequested s1 else s1);
                              all_proxies = slice_to proxy_list (batch_size self);
                              s3 = set_http_proxies_requested e proxy_list
                                     (Some (cache_expiry self)) s2
                          in case test_proxies self e all_proxies s3 of
                               (r, s4) \<Rightarrow> (Inr r, s4))))
           | Some cached_proxies \<Rightarrow>
               (let bad = get_bad_proxies e s;
                    filtered_proxies = filter (\<lambda>proxy. proxy \<notin> bad) cached_proxies;
                    all_proxies = slice_to filtered_proxies (batch_size self)
                in case test_proxies self e all_proxies s of
                     (r, s4) \<Rightarrow> (Inr r, s4))))"

text \<open>\<^verbatim>\<open>get_proxy\<close>\<close>

definition get_proxy :: "Proxy \<Rightarrow> env \<Rightarrow> state \<Rightarrow> (error + string option) \<times> state" where
  "get_proxy self e s =
     (case live (now e) (working_proxy s) of
        Some cached_proxy \<Rightarrow>
          (let is_working = snd (test_single_proxy (probe_cached e cached_proxy) cached_proxy);
               s1 = emit (Revalidate cached_proxy is_working) s
           in if is_working then (Inr (Some cached_proxy), s1)
              else fetch_proxy self e (cache_delete WorkingProxy s1))
      | None \<Rightarrow> fetch_proxy self e s)"

text \<open>Successive calls of \<^verbatim>\<open>get_proxy\<close> on the same object, one environment per call.\<close>

fun calls :: "Proxy \<Rightarrow> env list \<Rightarrow> state \<Rightarrow> (error + string option) list \<times> state" where
  "calls self [] s = ([], s)"
| "calls self (e # es) s =
     (case get_proxy self e s of
        (r, s1) \<Rightarrow> (case calls self es s1 of (rs, s2) \<Rightarrow> (r # rs, s2)))"

subsection \<open>Reading the log\<close>

text \<open>The events a step from \<open>s\<close> to \<open>s'\<close> has added.\<close>

definition emitted :: "state \<Rightarrow> state \<Rightarrow> event list" where
  "emitted s s' = drop (length (trace s)) (trace s')"

text \<open>The URLs requested from the list source.\<close>

fun fetches :: "event list \<Rightarrow> string list" where
  "fetches [] = []"
| "fetches (HttpGet u # es) = u # fetches es"
| "fetches (ev # es) = fetches es"

text \<open>The proxies a request was sent through: revalidation, batch tasks, attempts.\<close>

fun checked :: "event list \<Rightarrow> string list" where
  "checked [] = []"
| "checked (Revalidate p b # es) = p # checked es"
| "checked (BatchTest ps # es) = ps @ checked es"
| "checked (Probe p b # es) = p # checked es"
| "checked (ev # es) = checked es"

text \<open>The lists handed to \<^verbatim>\<open>_test_proxy_batch\<close>, and the sequential attempts.\<close>

fun batches :: "event list \<Rightarrow> string list list" where
  "batches [] = []"
| "batches (BatchTest ps # es) = ps # batches es"
| "batches (ev # es) = batches es"

fun attempted :: "event list \<Rightarrow> string list" where
  "attempted [] = []"
| "attempted (Probe p b # es) = p # attempted es"
| "attempted (ev # es) = attempted es"

text \<open>The \<^verbatim>\<open>expire\<close> arguments of the writes of \<^verbatim>\<open>working_proxy\<close> and \<^verbatim>\<open>bad_proxies\<close>.\<close>

fun working_expires :: "event list \<Rightarrow> int option list" where
  "working_expires [] = []"
| "working_expires (CacheSetWorking p ex # es) = ex # working_expires es"
| "working_expires (ev # es) = working_expires es"

fun bad_expires :: "event list \<Rightarrow> int option list" where
  "bad_expires [] = []"
| "bad_expires (CacheSetBad b ex # es) = ex # bad_expires es"
| "bad_expires (ev # es) = bad_expires es"

text \<open>A proxy was seen to answer with status 200.\<close>

definition seen_working :: "string \<Rightarrow> event list \<Rightarrow> bool" where
  "seen_working p es = (Probe p True \<in> set es \<or> BatchResult p True \<in> set es)"

text \<open>The empty cache with an empty log.\<close>

definition empty_cache :: state where
  "empty_cache = \<lparr>working_proxy = None, http_proxies_requested = None,
                  bad_proxies = None, trace = []\<rparr>"

text \<open>
  \<^verbatim>\<open>get_proxy\<close> gets past the cached proxy: none is cached, or the cached one fails
  its revalidation.
\<close>

definition reaches_fetch :: "env \<Rightarrow> state \<Rightarrow> bool" where
  "reaches_fetch e s =
     (case live (now e) (working_proxy s) of
        None \<Rightarrow> True
      | Some p \<Rightarrow> \<not> snd (test_single_proxy (probe_cached e p) p))"

text \<open>
  An environment in which the list source replies \<open>src\<close>, every request through a
  proxy gets the response \<open>r\<close>, and the tasks of a batch complete in list order.
\<close>

definition steady :: "reply \<Rightarrow> response \<Rightarrow> env" where
  "steady src r = \<lparr>now = 0, source = src, probe_cached = (\<lambda>_. r),
                   probe_batch = (\<lambda>_ _. r), probe_seq = (\<lambda>_ _. r), latency = (\<lambda>i. i)\<rparr>"

text \<open>
  An environment in which the cached proxy has stopped answering and the proxies of the
  list answer.
\<close>

definition recovering :: "reply \<Rightarrow> env" where
  "recovering src = (steady src (Status 200))\<lparr>probe_cached := (\<lambda>_. Status 503)\<rparr>"

text \<open>
  What the testing loops leave alone: they fetch nothing, and they write
  \<^verbatim>\<open>working_proxy\<close> and \<^verbatim>\<open>bad_proxies\<close> without \<^verbatim>\<open>expire\<close>.
\<close>

definition quiet :: "event list \<Rightarrow> bool" where
  "quiet es = (fetches es = [] \<and> set (working_expires es) \<subseteq> {None}
                \<and> set (bad_expires es) \<subseteq> {None})"

text \<open>
  A step that adds the events \<open>es\<close>, keeps the cached list, and leaves
  \<^verbatim>\<open>working_proxy\<close> as it was or sets it to a proxy seen working in \<open>es\<close>.
\<close>

definition kept :: "state \<Rightarrow> state \<Rightarrow> event list \<Rightarrow> bool" where
  "kept s s' es = (trace s' = trace s @ es
     \<and> http_proxies_requested s' = http_proxies_requested s
     \<and> (working_proxy s' = working_proxy s
        \<or> (\<exists>q. working_proxy s' = Some (q, None) \<and> seen_working q es)))"

text \<open>
  The events of the fresh branch of \<^verbatim>\<open>_fetch_proxy\<close> up to the write of the list
  (lines 105 to 129) for the filtered list \<open>cs\<close>, and the state they leave.
\<close>

definition fresh_events :: "Proxy \<Rightarrow> string \<Rightarrow> string list \<Rightarrow> event list" where
  "fresh_events self url cs =
     HttpGet url # (if cs = [] then [CacheDelete HttpProxiesRequested] else [])
       @ [CacheSetList cs (Some (cache_expiry self))]"

definition fresh_state :: "Proxy \<Rightarrow> env \<Rightarrow> string \<Rightarrow> string list \<Rightarrow> state \<Rightarrow> state" where
  "fresh_state self e url cs s =
     s\<lparr>http_proxies_requested := Some (cs, Some (now e + cache_expiry self)),
       trace := trace s @ fresh_events self url cs\<rparr>"

text \<open>
  The state in which \<^verbatim>\<open>get_proxy\<close> calls \<^verbatim>\<open>_fetch_proxy\<close> when the cached proxy, if
  there is one, has failed its revalidation, and the events up to there.
\<close>

definition after_revalidation :: "env \<Rightarrow> state \<Rightarrow> state" where
  "after_revalidation e s =
     (case live (now e) (working_proxy s) of
        None \<Rightarrow> s
      | Some p \<Rightarrow> cache_delete WorkingProxy (emit (Revalidate p False) s))"

definition revalidation_events :: "env \<Rightarrow> state \<Rightarrow> event list" where
  "revalidation_events e s =
     (case live (now e) (working_proxy s) of
        None \<Rightarrow> []
      | Some p \<Rightarrow> [Revalidate p False, CacheDelete WorkingProxy])"

text \<open>
  A step that adds the events \<open>es\<close> and leaves \<^verbatim>\<open>working_proxy\<close> as it was,
  deleted, or set to a proxy seen working in \<open>es\<close>.
\<close>

definition follows :: "state \<Rightarrow> state \<Rightarrow> event list \<Rightarrow> bool" where
  "follows s s' es = (trace s' = trace s @ es
     \<and> (working_proxy s' = working_proxy s \<or> working_proxy s' = None
        \<or> (\<exists>q. working_proxy s' = Some (q, None) \<and> seen_working q es)))"

section \<open>Properties\<close>

subsection \<open>The log and the cache operations\<close>

lemmas cache_ops = emit_def set_working_proxy_def set_http_proxies_requested_def
  set_bad_proxies_def cache_bad_proxy_def expire_time_def

lemma fetches_append: "fetches (xs @ ys) = fetches xs @ fetches ys"
  by (induction xs rule: fetches.induct) simp_all
lemma checked_append: "checked (xs @ ys) = checked xs @ checked ys"
  by (induction xs rule: checked.induct) simp_all
lemma batches_append: "batches (xs @ ys) = batches xs @ batches ys"
  by (induction xs rule: batches.induct) simp_all
lemma attempted_append: "attempted (xs @ ys) = attempted xs @ attempted ys"
  by (induction xs rule: attempted.induct) simp_all
lemma working_expires_append: "working_expires (xs @ ys) = working_expires xs @ working_expires ys"
  by (induction xs rule: working_expires.induct) simp_all
lemma bad_expires_append: "bad_expires (xs @ ys) = bad_expires xs @ bad_expires ys"
  by (induction xs rule: bad_expires.induct) simp_all

lemmas log_append = fetches_append checked_append batches_append attempted_append
  working_expires_append bad_expires_append

lemma emitted_append: "trace s' = trace s @ es \<Longrightarrow> emitted s s' = es"
  by (simp add: emitted_def)

lemma quiet_append: "quiet (xs @ ys) = (quiet xs \<and> quiet ys)"
  by (auto simp: quiet_def log_append)

lemma kept_refl: "kept s s []"
  by (simp add: kept_def)

lemma kept_trans: "kept s s1 xs \<Longrightarrow> kept s1 s2 ys \<Longrightarrow> kept s s2 (xs @ ys)"
  by (auto simp: kept_def seen_working_def)

lemma kept_bad: "kept s (cache_bad_proxy e p s) [CacheSetBad (insert p (get_bad_proxies e s)) None]"
  by (simp add: kept_def cache_ops Let_def)

lemma kept_emit_bad:
  "kept s (cache_bad_proxy e p (emit ev s)) [ev, CacheSetBad (insert p (get_bad_proxies e (emit ev s))) None]"
  by (simp add: kept_def cache_ops Let_def)

lemma kept_emit: "kept s (emit ev s) [ev]"
  by (simp add: kept_def cache_ops)

lemma kept_working_probe:
  "kept s (set_working_proxy e p None (emit (Probe p True) s)) [Probe p True, CacheSetWorking p None]"
  by (simp add: kept_def cache_ops seen_working_def)

lemma kept_working_batch:
  "kept s (set_working_proxy e p None (emit (BatchResult p True) s))
     [BatchResult p True, CacheSetWorking p None]"
  by (simp add: kept_def cache_ops seen_working_def)

lemma sequential_effects:
  "\<exists>es k. kept s (snd (sequential e m a ps s)) es \<and> quiet es \<and> batches es = []
     \<and> checked es = attempted es \<and> attempted es = take k ps \<and> int k \<le> max 0 (m - int a)"
proof (induction ps arbitrary: a s)
  case Nil
  show ?case by (rule exI[of _ "[]"], rule exI[of _ 0]) (simp add: kept_refl quiet_def)
next
  case (Cons p ps)
  show ?case
  proof (cases "int a < m")
    case False
    then show ?thesis
      by (intro exI[of _ "[]"] exI[of _ 0]) (simp add: kept_refl quiet_def)
  next
    case True
    show ?thesis
    proof (cases "snd (test_single_proxy (probe_seq e (a + 1) p) p)")
      case w: True
      have "sequential e m a (p # ps) s
              = (Some p, set_working_proxy e p None (emit (Probe p True) s))"
        using True w by simp
      then show ?thesis
        using True kept_working_probe[of s e p]
        by (intro exI[of _ "[Probe p True, CacheSetWorking p None]"] exI[of _ 1])
           (simp add: quiet_def)
    next
      case w: False
      let ?s1 = "cache_bad_proxy e p (emit (Probe p False) s)"
      let ?pre = "[Probe p False, CacheSetBad (insert p (get_bad_proxies e (emit (Probe p False) s))) None]"
      have step: "sequential e m a (p # ps) s = sequential e m (a + 1) ps ?s1"
        using True w by simp
      obtain es k where ih:
        "kept ?s1 (snd (sequential e m (a + 1) ps ?s1)) es" "quiet es" "batches es = []"
        "checked es = attempted es" "attempted es = take k ps" "int k \<le> max 0 (m - int (a + 1))"
        using Cons.IH[of ?s1 "a + 1"] by blast
      have "kept s (snd (sequential e m (a + 1) ps ?s1)) (?pre @ es)"
        using kept_trans[OF kept_emit_bad ih(1)] .
      moreover have "quiet (?pre @ es)" using ih(2) by (simp add: quiet_append) (simp add: quiet_def)
      moreover have "int (Suc k) \<le> max 0 (m - int a)" using ih(6) True by simp
      moreover have "attempted (?pre @ es) = take (Suc k) (p # ps)"
        using ih(5) by (simp add: log_append)
      moreover have "checked (?pre @ es) = attempted (?pre @ es)"
        using ih(4) by (simp add: log_append)
      moreover have "batches (?pre @ es) = []"
        using ih(3) by (simp add: log_append)
      ultimately show ?thesis
        unfolding step by blast
    qed
  qed
qed

lemma batch_results_effects:
  "\<exists>es. kept s (snd (batch_results e rs s)) es \<and> quiet es \<and> batches es = []
     \<and> checked es = [] \<and> attempted es = []"
proof (induction rs arbitrary: s)
  case Nil
  show ?case by (rule exI[of _ "[]"]) (simp add: kept_refl quiet_def)
next
  case (Cons r rs)
  obtain p w where r: "r = (p, w)" by (cases r)
  show ?case
  proof (cases w)
    case True
    have "batch_results e (r # rs) s
            = (Some p, set_working_proxy e p None (emit (BatchResult p True) s))"
      using True r by simp
    then show ?thesis
      using kept_working_batch[of s e p]
      by (intro exI[of _ "[BatchResult p True, CacheSetWorking p None]"]) (simp add: quiet_def)
  next
    case False
    let ?s1 = "cache_bad_proxy e p (emit (BatchResult p False) s)"
    let ?pre = "[BatchResult p False,
                 CacheSetBad (insert p (get_bad_proxies e (emit (BatchResult p False) s))) None]"
    have step: "batch_results e (r # rs) s = batch_results e rs ?s1"
      using False r by simp
    obtain es where ih:
      "kept ?s1 (snd (batch_results e rs ?s1)) es" "quiet es" "batches es = []"
      "checked es = []" "attempted es = []"
      using Cons.IH[of ?s1] by blast
    have "kept s (snd (batch_results e rs ?s1)) (?pre @ es)"
      using kept_trans[OF kept_emit_bad ih(1)] .
    moreover have "quiet (?pre @ es)" using ih(2) by (simp add: quiet_append) (simp add: quiet_def)
    moreover have "batches (?pre @ es) = []" "checked (?pre @ es) = []" "attempted (?pre @ es) = []"
      using ih(3,4,5) by (simp_all add: log_append)
    ultimately show ?thesis
      unfolding step by blast
  qed
qed

lemma test_proxy_batch_effects:
  "\<exists>es. kept s (snd (test_proxy_batch e ps s)) es \<and> quiet es \<and> batches es = [ps]
     \<and> checked es = ps \<and> attempted es = []"
proof -
  let ?s0 = "emit (BatchTest ps) s"
  obtain rs where tb: "test_proxy_batch e ps s = batch_results e rs ?s0"
    by (simp add: test_proxy_batch_def)
  obtain es where b: "kept ?s0 (snd (batch_results e rs ?s0)) es" "quiet es" "batches es = []"
      "checked es = []" "attempted es = []"
    using batch_results_effects[of ?s0 e rs] by blast
  have "kept s (snd (batch_results e rs ?s0)) ([BatchTest ps] @ es)"
    using kept_trans[OF kept_emit b(1)] .
  moreover have "quiet ([BatchTest ps] @ es)"
    using b(2) by (simp add: quiet_append) (simp add: quiet_def)
  moreover have "batches ([BatchTest ps] @ es) = [ps]" "checked ([BatchTest ps] @ es) = ps"
      "attempted ([BatchTest ps] @ es) = []"
    using b(3,4,5) by (simp_all add: log_append)
  ultimately show ?thesis unfolding tb by blast
qed

lemma test_proxies_effects:
  "\<exists>es. kept s (snd (test_proxies self e ps s)) es \<and> quiet es
     \<and> set (checked es) \<subseteq> set ps
     \<and> (batch_size self \<le> int (length ps) \<longrightarrow> batches es = [ps])
     \<and> (int (length ps) < batch_size self \<longrightarrow>
          batches es = [] \<and> checked es = attempted es
          \<and> (\<exists>k. attempted es = take k ps \<and> int k \<le> max_attempts_of self ps))"
proof (cases "batch_size self \<le> int (length ps)")
  case False
  obtain es k where q: "kept s (snd (sequential e (max_attempts_of self ps) 0 ps s)) es" "quiet es"
    "batches es = []" "checked es = attempted es" "attempted es = take k ps"
    "int k \<le> max 0 (max_attempts_of self ps - int 0)"
    using sequential_effects[of s e "max_attempts_of self ps" 0 ps] by blast
  have tp: "test_proxies self e ps s = sequential e (max_attempts_of self ps) 0 ps s"
    using False by (simp add: test_proxies_def)
  have "0 \<le> max_attempts_of self ps" using False by (simp add: max_attempts_of_def)
  then have "int k \<le> max_attempts_of self ps" using q(6) by simp
  then have ex: "\<exists>k. attempted es = take k ps \<and> int k \<le> max_attempts_of self ps"
    using q(5) by blast
  have sub: "set (checked es) \<subseteq> set ps" using q(4,5) by (simp add: set_take_subset)
  show ?thesis unfolding tp
    by (rule exI[of _ es]) (use q(1,2,3,4) ex sub False in simp)
next
  case True
  obtain r sb where tb: "test_proxy_batch e ps s = (r, sb)"
    by (cases "test_proxy_batch e ps s")
  obtain xs where b: "kept s sb xs" "quiet xs" "batches xs = [ps]" "checked xs = ps"
    "attempted xs = []"
    using test_proxy_batch_effects[of s e ps] tb by auto
  show ?thesis
  proof (cases "truthy r")
    case t: True
    have tp: "snd (test_proxies self e ps s) = sb"
      using True t tb by (simp add: test_proxies_def)
    show ?thesis unfolding tp
      by (rule exI[of _ xs]) (use b True in simp)
  next
    case t: False
    have tp: "test_proxies self e ps s = sequential e (max_attempts_of self ps) 0 ps sb"
      using True t tb by (simp add: test_proxies_def)
    obtain ys k where q: "kept sb (snd (sequential e (max_attempts_of self ps) 0 ps sb)) ys"
      "quiet ys" "batches ys = []" "checked ys = attempted ys" "attempted ys = take k ps"
      using sequential_effects[of sb e "max_attempts_of self ps" 0 ps] by blast
    have "kept s (snd (sequential e (max_attempts_of self ps) 0 ps sb)) (xs @ ys)"
      using kept_trans[OF b(1) q(1)] .
    moreover have "quiet (xs @ ys)" using b(2) q(2) by (simp add: quiet_append)
    moreover have "batches (xs @ ys) = [ps]" using b(3) q(3) by (simp add: log_append)
    moreover have "set (checked (xs @ ys)) \<subseteq> set ps"
      using b(4) q(4,5) set_take_subset[of k ps] by (simp add: log_append)
    ultimately show ?thesis unfolding tp
      by (intro exI[of _ "xs @ ys"]) (use True in simp)
  qed
qed

lemma get_bad_proxies_emit: "get_bad_proxies e (emit ev s) = get_bad_proxies e s"
  by (simp add: get_bad_proxies_def emit_def)

lemmas run_defs = get_proxy_def fetch_proxy_def test_proxies_def test_proxy_batch_def
  as_completed_def max_attempts_of_def slice_to_def truthy_def test_single_proxy_def
  get_bad_proxies_def empty_cache_def steady_def Let_def

subsection \<open>No source URL\<close>

text \<open>
  C8. When no source URL is configured and no cached working proxy passes its
  revalidation, \<^verbatim>\<open>get_proxy\<close> returns \<^verbatim>\<open>None\<close> and the call sends no request to a
  list source.
\<close>

theorem no_source_url_returns_none:
  assumes "proxy_url self = None" and "reaches_fetch e s"
  shows "fst (get_proxy self e s) = Inr None
         \<and> fetches (emitted s (snd (get_proxy self e s))) = []"
proof (cases "live (now e) (working_proxy s)")
  case None
  then show ?thesis using assms(1) by (simp add: get_proxy_def fetch_proxy_def emitted_def)
next
  case (Some p)
  then have "\<not> snd (test_single_proxy (probe_cached e p) p)"
    using assms(2) by (simp add: reaches_fetch_def)
  then show ?thesis using assms(1) Some
    by (simp add: get_proxy_def fetch_proxy_def emitted_def cache_ops)
qed

theorem no_source_url_returns_none_witness:
  "reaches_fetch (steady ConnectionFailed (Status 503))
       (empty_cache\<lparr>working_proxy := Some (''5.6.7.8:3128'', None)\<rparr>)
   \<and> fst (get_proxy \<lparr>proxy_url = None, batch_size = 1000, cache_expiry = 86400\<rparr>
            (steady ConnectionFailed (Status 503))
            (empty_cache\<lparr>working_proxy := Some (''5.6.7.8:3128'', None)\<rparr>)) = Inr None
   \<and> fetches (emitted (empty_cache\<lparr>working_proxy := Some (''5.6.7.8:3128'', None)\<rparr>)
        (snd (get_proxy \<lparr>proxy_url = None, batch_size = 1000, cache_expiry = 86400\<rparr>
            (steady ConnectionFailed (Status 503))
            (empty_cache\<lparr>working_proxy := Some (''5.6.7.8:3128'', None)\<rparr>)))) = []"
proof -
  have r: "reaches_fetch (steady ConnectionFailed (Status 503))
       (empty_cache\<lparr>working_proxy := Some (''5.6.7.8:3128'', None)\<rparr>)"
    by (simp add: reaches_fetch_def steady_def empty_cache_def test_single_proxy_def)
  show ?thesis
    using r no_source_url_returns_none[OF _ r,
      of "\<lparr>proxy_url = None, batch_size = 1000, cache_expiry = 86400\<rparr>"]
    by simp
qed

subsection \<open>The empty list\<close>

text \<open>
  C1. The claim is that an empty filtered list is followed by exactly one more fetch.
  At the empty cache, with a source that replies with the empty array, the call ends
  with \<^verbatim>\<open>None\<close> after a single request to the source: the retry, written without
  \<^verbatim>\<open>await\<close>, never runs.
\<close>

theorem empty_list_is_not_retried:
  "fst (get_proxy \<lparr>proxy_url = Some ''http://list'', batch_size = 1000, cache_expiry = 86400\<rparr>
          (steady (JsonArray []) Failed) empty_cache) = Inr None
   \<and> fetches (trace (snd (get_proxy
          \<lparr>proxy_url = Some ''http://list'', batch_size = 1000, cache_expiry = 86400\<rparr>
          (steady (JsonArray []) Failed) empty_cache))) = [''http://list'']"
  by (simp add: run_defs cache_ops)

subsection \<open>Proxies known to be bad\<close>

text \<open>
  C3. The claim is that a proxy in the set of bad proxies is never requested again.
  With a batch size of 1 and a list of one proxy that does not answer, the batch
  records the proxy as bad, and the sequential loop that follows requests it again.
\<close>

theorem bad_proxy_is_tested_again:
  "trace (snd (get_proxy \<lparr>proxy_url = Some ''http://list'', batch_size = 1, cache_expiry = 86400\<rparr>
          (steady (JsonArray [[(''proxy'', ''1.2.3.4:8080'')]]) Failed) empty_cache))
   = [HttpGet ''http://list'', CacheSetList [''1.2.3.4:8080''] (Some 86400),
      BatchTest [''1.2.3.4:8080''], BatchResult ''1.2.3.4:8080'' False,
      CacheSetBad {''1.2.3.4:8080''} None,
      Probe ''1.2.3.4:8080'' False, CacheSetBad {''1.2.3.4:8080''} None]"
  by (simp add: run_defs cache_ops)

subsection \<open>The branches of the fetch\<close>

lemma get_bad_proxies_trace: "get_bad_proxies e (s\<lparr>trace := t\<rparr>) = get_bad_proxies e s"
  by (simp add: get_bad_proxies_def)

lemma fetch_proxy_fresh:
  assumes "proxy_url self = Some url" "live (now e) (http_proxies_requested s) = None"
    "source e = JsonArray rs" "parse rs = Inr parsed"
  shows "fetch_proxy self e s =
     (case test_proxies self e
        (slice_to (filter (\<lambda>p. p \<notin> get_bad_proxies e s) parsed) (batch_size self))
        (fresh_state self e url (filter (\<lambda>p. p \<notin> get_bad_proxies e s) parsed) s) of
        (r, s4) \<Rightarrow> (Inr r, s4))"
  using assms
  by (simp add: fetch_proxy_def Let_def get_bad_proxies_trace fresh_state_def fresh_events_def
        cache_ops)

lemma fetch_proxy_cached:
  assumes "proxy_url self = Some url" "live (now e) (http_proxies_requested s) = Some cached"
  shows "fetch_proxy self e s =
     (case test_proxies self e
        (slice_to (filter (\<lambda>p. p \<notin> get_bad_proxies e s) cached) (batch_size self)) s of
        (r, s4) \<Rightarrow> (Inr r, s4))"
  using assms by (simp add: fetch_proxy_def Let_def)

lemma fetch_proxy_raises:
  assumes "proxy_url self = Some url" "live (now e) (http_proxies_requested s) = None"
  shows "source e = ConnectionFailed \<Longrightarrow> fetch_proxy self e s = (Inl ClientError, emit (HttpGet url) s)"
    and "source e = WrongContentType \<Longrightarrow>
           fetch_proxy self e s = (Inl ContentTypeError, emit (HttpGet url) s)"
    and "source e = InvalidJSON \<Longrightarrow> fetch_proxy self e s = (Inl JSONDecodeError, emit (HttpGet url) s)"
    and "source e = JsonArray rs \<Longrightarrow> parse rs = Inl err \<Longrightarrow>
           fetch_proxy self e s = (Inl err, emit (HttpGet url) s)"
  using assms by (simp_all add: fetch_proxy_def Let_def)

lemma parse_error: "parse rs = Inl err \<Longrightarrow> err = KeyError"
  by (induction rs arbitrary: err) (auto split: option.splits sum.splits if_splits)

lemma get_proxy_reaches:
  "reaches_fetch e s \<Longrightarrow>
     get_proxy self e s =
       fetch_proxy self e
         (case live (now e) (working_proxy s) of None \<Rightarrow> s
          | Some p \<Rightarrow> cache_delete WorkingProxy (emit (Revalidate p False) s))"
  by (simp add: get_proxy_def reaches_fetch_def Let_def split: option.splits)

lemma get_proxy_cached_works:
  "\<not> reaches_fetch e s \<Longrightarrow>
     \<exists>p. live (now e) (working_proxy s) = Some p
       \<and> get_proxy self e s = (Inr (Some p), emit (Revalidate p True) s)"
  by (auto simp add: get_proxy_def reaches_fetch_def Let_def split: option.splits)

subsection \<open>What a call does to the cache\<close>

lemma get_proxy_after_revalidation:
  "reaches_fetch e s \<Longrightarrow> get_proxy self e s = fetch_proxy self e (after_revalidation e s)"
  by (simp add: get_proxy_reaches after_revalidation_def)

lemma after_revalidation_simps:
  "trace (after_revalidation e s) = trace s @ revalidation_events e s"
  "http_proxies_requested (after_revalidation e s) = http_proxies_requested s"
  "bad_proxies (after_revalidation e s) = bad_proxies s"
  "get_bad_proxies e (after_revalidation e s) = get_bad_proxies e s"
  "live t (working_proxy (after_revalidation e s)) = None \<or> working_proxy (after_revalidation e s) = working_proxy s"
  by (simp_all add: after_revalidation_def revalidation_events_def cache_ops get_bad_proxies_def
        split: option.splits)

lemma revalidation_events_simps:
  "fetches (revalidation_events e s) = []"
  "working_expires (revalidation_events e s) = []"
  "bad_expires (revalidation_events e s) = []"
  "batches (revalidation_events e s) = []"
  "attempted (revalidation_events e s) = []"
  by (simp_all add: revalidation_events_def split: option.splits)

lemma fresh_events_simps:
  "fetches (fresh_events self url cs) = [url]"
  "working_expires (fresh_events self url cs) = []"
  "bad_expires (fresh_events self url cs) = []"
  "batches (fresh_events self url cs) = []"
  "attempted (fresh_events self url cs) = []"
  "checked (fresh_events self url cs) = []"
  by (simp_all add: fresh_events_def)

lemma fresh_state_simps:
  "trace (fresh_state self e url cs s) = trace s @ fresh_events self url cs"
  "working_proxy (fresh_state self e url cs s) = working_proxy s"
  "bad_proxies (fresh_state self e url cs s) = bad_proxies s"
  "http_proxies_requested (fresh_state self e url cs s) = Some (cs, Some (now e + cache_expiry self))"
  by (simp_all add: fresh_state_def)

lemma sequential_hit:
  "fst (sequential e m a ps s) = Some q \<Longrightarrow>
     working_proxy (snd (sequential e m a ps s)) = Some (q, None)"
  by (induction ps arbitrary: a s) (auto simp: Let_def cache_ops split: if_splits)

lemma batch_results_hit:
  "fst (batch_results e rs s) = Some q \<Longrightarrow>
     working_proxy (snd (batch_results e rs s)) = Some (q, None)"
  by (induction rs arbitrary: s) (auto simp: Let_def cache_ops split: if_splits)

lemma test_proxies_hit:
  assumes "fst (test_proxies self e ps s) = Some q"
  shows "working_proxy (snd (test_proxies self e ps s)) = Some (q, None)"
proof -
  obtain r sb where tb: "test_proxy_batch e ps s = (r, sb)"
    by (cases "test_proxy_batch e ps s")
  have b: "\<And>q. r = Some q \<Longrightarrow> working_proxy sb = Some (q, None)"
    using batch_results_hit tb unfolding test_proxy_batch_def Let_def
    by (metis fst_conv snd_conv)
  show ?thesis
  proof (cases "batch_size self \<le> int (length ps)")
    case False
    then have "test_proxies self e ps s = sequential e (max_attempts_of self ps) 0 ps s"
      by (simp add: test_proxies_def)
    then show ?thesis using assms sequential_hit by simp
  next
    case True
    show ?thesis
    proof (cases "truthy r")
      case t: True
      then have "test_proxies self e ps s = (r, sb)"
        using tb True by (simp add: test_proxies_def)
      then show ?thesis using assms b by simp
    next
      case t: False
      then have "test_proxies self e ps s = sequential e (max_attempts_of self ps) 0 ps sb"
        using tb True by (simp add: test_proxies_def)
      then show ?thesis using assms sequential_hit by simp
    qed
  qed
qed

lemma fetch_proxy_effects:
  "\<exists>es. trace (snd (fetch_proxy self e s)) = trace s @ es
     \<and> set (working_expires es) \<subseteq> {None} \<and> set (bad_expires es) \<subseteq> {None}
     \<and> (working_proxy (snd (fetch_proxy self e s)) = working_proxy s
        \<or> (\<exists>q. working_proxy (snd (fetch_proxy self e s)) = Some (q, None) \<and> seen_working q es))"
proof -
  let ?goal = ?thesis
  have same: "snd (fetch_proxy self e s) = s \<Longrightarrow> ?goal"
  proof -
    assume a: "snd (fetch_proxy self e s) = s"
    show ?goal unfolding a by (rule exI[of _ "[]"]) simp
  qed
  have got: "\<And>ev. snd (fetch_proxy self e s) = emit (HttpGet ev) s \<Longrightarrow> ?goal"
  proof -
    fix ev assume a: "snd (fetch_proxy self e s) = emit (HttpGet ev) s"
    show ?goal unfolding a by (rule exI[of _ "[HttpGet ev]"]) (simp add: cache_ops)
  qed
  show ?thesis
  proof (cases "proxy_url self")
    case None
    then show ?thesis by (intro same) (simp add: fetch_proxy_def)
  next
    case (Some url)
    show ?thesis
    proof (cases "live (now e) (http_proxies_requested s)")
      case c: (Some cached)
      let ?ps = "slice_to (filter (\<lambda>p. p \<notin> get_bad_proxies e s) cached) (batch_size self)"
      have f: "snd (fetch_proxy self e s) = snd (test_proxies self e ?ps s)"
        using Some c by (simp add: fetch_proxy_cached split: prod.splits)
      obtain es where "kept s (snd (test_proxies self e ?ps s)) es" "quiet es"
        using test_proxies_effects[of s self e ?ps] by blast
      then show ?thesis unfolding f
        by (intro exI[of _ es]) (auto simp: kept_def quiet_def)
    next
      case c: None
      show ?thesis
      proof (cases "source e")
        case ConnectionFailed
        then show ?thesis using Some c by (intro got[of url]) (simp add: fetch_proxy_raises)
      next
        case WrongContentType
        then show ?thesis using Some c by (intro got[of url]) (simp add: fetch_proxy_raises)
      next
        case InvalidJSON
        then show ?thesis using Some c by (intro got[of url]) (simp add: fetch_proxy_raises)
      next
        case (JsonArray rs)
        show ?thesis
        proof (cases "parse rs")
          case (Inl err)
          then show ?thesis using Some c JsonArray by (intro got[of url]) (simp add: fetch_proxy_raises)
        next
          case (Inr parsed)
          let ?cs = "filter (\<lambda>p. p \<notin> get_bad_proxies e s) parsed"
          let ?s3 = "fresh_state self e url ?cs s"
          let ?ps = "slice_to ?cs (batch_size self)"
          have f: "snd (fetch_proxy self e s) = snd (test_proxies self e ?ps ?s3)"
            using Some c JsonArray Inr by (simp add: fetch_proxy_fresh split: prod.splits)
          obtain es where k: "kept ?s3 (snd (test_proxies self e ?ps ?s3)) es" "quiet es"
            using test_proxies_effects[of ?s3 self e ?ps] by blast
          show ?thesis unfolding f
            apply (rule exI[of _ "fresh_events self url ?cs @ es"])
            using k
            by (auto simp: kept_def quiet_def fresh_state_simps fresh_events_simps log_append
                  seen_working_def)
        qed
      qed
    qed
  qed
qed

lemma follows_trans: "follows s s1 xs \<Longrightarrow> follows s1 s2 ys \<Longrightarrow> follows s s2 (xs @ ys)"
  by (auto simp: follows_def seen_working_def)

lemma get_proxy_effects:
  "\<exists>es. follows s (snd (get_proxy self e s)) es
     \<and> set (working_expires es) \<subseteq> {None} \<and> set (bad_expires es) \<subseteq> {None}"
proof (cases "reaches_fetch e s")
  case False
  then obtain p where "get_proxy self e s = (Inr (Some p), emit (Revalidate p True) s)"
    using get_proxy_cached_works[OF False, of self] by blast
  then show ?thesis
    by (intro exI[of _ "[Revalidate p True]"]) (simp add: follows_def cache_ops)
next
  case True
  let ?s0 = "after_revalidation e s"
  obtain es where f: "trace (snd (fetch_proxy self e ?s0)) = trace ?s0 @ es"
     "set (working_expires es) \<subseteq> {None}" "set (bad_expires es) \<subseteq> {None}"
     "working_proxy (snd (fetch_proxy self e ?s0)) = working_proxy ?s0
        \<or> (\<exists>q. working_proxy (snd (fetch_proxy self e ?s0)) = Some (q, None) \<and> seen_working q es)"
    using fetch_proxy_effects[of self e ?s0] by blast
  have w0: "working_proxy ?s0 = working_proxy s \<or> working_proxy ?s0 = None"
    by (simp add: after_revalidation_def cache_ops split: option.splits)
  show ?thesis
    unfolding get_proxy_after_revalidation[OF True]
    apply (rule exI[of _ "revalidation_events e s @ es"])
    using f w0
    by (auto simp: follows_def after_revalidation_simps revalidation_events_simps log_append
          seen_working_def)
qed


lemma fetch_proxy_hit:
  assumes "fst (fetch_proxy self e s) = Inr (Some q)"
  shows "working_proxy (snd (fetch_proxy self e s)) = Some (q, None)"
proof (cases "proxy_url self")
  case None
  then show ?thesis using assms by (simp add: fetch_proxy_def)
next
  case (Some url)
  show ?thesis
  proof (cases "live (now e) (http_proxies_requested s)")
    case c: (Some cached)
    show ?thesis using assms test_proxies_hit
      by (simp add: fetch_proxy_cached[OF Some c] split: prod.splits) (metis fst_conv snd_conv)
  next
    case c: None
    show ?thesis
    proof (cases "source e")
      case ConnectionFailed
      then show ?thesis using Some c assms by (simp add: fetch_proxy_raises)
    next
      case WrongContentType
      then show ?thesis using Some c assms by (simp add: fetch_proxy_raises)
    next
      case InvalidJSON
      then show ?thesis using Some c assms by (simp add: fetch_proxy_raises)
    next
      case (JsonArray rs)
      show ?thesis
      proof (cases "parse rs")
        case (Inl err)
        then show ?thesis using Some c JsonArray assms by (simp add: fetch_proxy_raises)
      next
        case (Inr parsed)
        show ?thesis using assms test_proxies_hit
          by (simp add: fetch_proxy_fresh[OF Some c JsonArray Inr] split: prod.splits)
             (metis fst_conv snd_conv)
      qed
    qed
  qed
qed

subsection \<open>Expiry of the cache entries\<close>

text \<open>
  C9, as the claim states it: \<^verbatim>\<open>working_proxy\<close> is written with a time to live. At
  the empty cache, with a list of one proxy that answers, the entry is stored with no
  expiry time, and the write carries no \<^verbatim>\<open>expire\<close>.
\<close>

theorem working_proxy_has_no_expiry:
  "working_proxy (snd (get_proxy
      \<lparr>proxy_url = Some ''http://list'', batch_size = 1000, cache_expiry = 86400\<rparr>
      (steady (JsonArray [[(''proxy'', ''1.2.3.4:8080'')]]) (Status 200)) empty_cache))
     = Some (''1.2.3.4:8080'', None)
   \<and> working_expires (trace (snd (get_proxy
      \<lparr>proxy_url = Some ''http://list'', batch_size = 1000, cache_expiry = 86400\<rparr>
      (steady (JsonArray [[(''proxy'', ''1.2.3.4:8080'')]]) (Status 200)) empty_cache))) = [None]"
  by (simp add: run_defs cache_ops)

text \<open>
  C9, amended. Every write of \<^verbatim>\<open>working_proxy\<close> and every write of \<^verbatim>\<open>bad_proxies\<close>
  that a call of \<^verbatim>\<open>get_proxy\<close> performs carries no \<^verbatim>\<open>expire\<close>, and a proxy that
  the fetch returns is stored under \<^verbatim>\<open>working_proxy\<close> with no expiry time: both
  entries stay until they are deleted.
\<close>

theorem working_proxy_written_without_expiry:
  "set (working_expires (emitted s (snd (get_proxy self e s)))) \<subseteq> {None}
   \<and> set (bad_expires (emitted s (snd (get_proxy self e s)))) \<subseteq> {None}
   \<and> (reaches_fetch e s \<and> fst (get_proxy self e s) = Inr (Some q)
        \<longrightarrow> working_proxy (snd (get_proxy self e s)) = Some (q, None))"
proof -
  obtain es where "follows s (snd (get_proxy self e s)) es"
    "set (working_expires es) \<subseteq> {None}" "set (bad_expires es) \<subseteq> {None}"
    using get_proxy_effects[of s self e] by blast
  then have "set (working_expires (emitted s (snd (get_proxy self e s)))) \<subseteq> {None}"
    "set (bad_expires (emitted s (snd (get_proxy self e s)))) \<subseteq> {None}"
    by (simp_all add: follows_def emitted_def)
  moreover have "reaches_fetch e s \<and> fst (get_proxy self e s) = Inr (Some q)
        \<longrightarrow> working_proxy (snd (get_proxy self e s)) = Some (q, None)"
  proof
    assume a: "reaches_fetch e s \<and> fst (get_proxy self e s) = Inr (Some q)"
    then have g: "get_proxy self e s = fetch_proxy self e (after_revalidation e s)"
      by (simp add: get_proxy_after_revalidation)
    show "working_proxy (snd (get_proxy self e s)) = Some (q, None)"
      using a fetch_proxy_hit[of self e "after_revalidation e s" q] unfolding g by simp
  qed
  ultimately show ?thesis by simp
qed

theorem working_proxy_written_without_expiry_witness:
  "reaches_fetch (steady (JsonArray [[(''proxy'', ''1.2.3.4:8080'')]]) (Status 200)) empty_cache
   \<and> fst (get_proxy \<lparr>proxy_url = Some ''http://list'', batch_size = 1000, cache_expiry = 86400\<rparr>
        (steady (JsonArray [[(''proxy'', ''1.2.3.4:8080'')]]) (Status 200)) empty_cache)
       = Inr (Some ''1.2.3.4:8080'')
   \<and> working_proxy (snd (get_proxy
        \<lparr>proxy_url = Some ''http://list'', batch_size = 1000, cache_expiry = 86400\<rparr>
        (steady (JsonArray [[(''proxy'', ''1.2.3.4:8080'')]]) (Status 200)) empty_cache))
       = Some (''1.2.3.4:8080'', None)"
proof -
  let ?e = "steady (JsonArray [[(''proxy'', ''1.2.3.4:8080'')]]) (Status 200)"
  let ?self = "\<lparr>proxy_url = Some ''http://list'', batch_size = 1000, cache_expiry = 86400\<rparr>"
  have h: "reaches_fetch ?e empty_cache"
    by (simp add: reaches_fetch_def steady_def empty_cache_def)
  have r: "fst (get_proxy ?self ?e empty_cache) = Inr (Some ''1.2.3.4:8080'')"
    by (simp add: run_defs cache_ops)
  show ?thesis
    using h r working_proxy_written_without_expiry[of empty_cache ?self ?e "''1.2.3.4:8080''"]
    by blast
qed

subsection \<open>The list written to the cache\<close>

text \<open>
  C6, as the claim states it: the list written to the cache is the parsed list before
  the bad proxies are removed. With \<^verbatim>\<open>1.2.3.4:8080\<close> recorded as bad and a source
  that lists it with \<^verbatim>\<open>5.6.7.8:3128\<close>, the parsed list has both and the cached
  list only the second.
\<close>

theorem cached_list_lacks_bad_proxies:
  "parse [[(''proxy'', ''1.2.3.4:8080'')], [(''proxy'', ''5.6.7.8:3128'')]]
     = Inr [''1.2.3.4:8080'', ''5.6.7.8:3128'']
   \<and> http_proxies_requested (snd (get_proxy
        \<lparr>proxy_url = Some ''http://list'', batch_size = 1000, cache_expiry = 86400\<rparr>
        (steady (JsonArray [[(''proxy'', ''1.2.3.4:8080'')], [(''proxy'', ''5.6.7.8:3128'')]]) Failed)
        (empty_cache\<lparr>bad_proxies := Some ({''1.2.3.4:8080''}, None)\<rparr>)))
     = Some ([''5.6.7.8:3128''], Some 86400)"
  by (simp add: run_defs cache_ops)

text \<open>
  C6, amended. On a miss of the cached list and a reply that parses, the list written
  under \<^verbatim>\<open>http_proxies_requested\<close>, with \<^verbatim>\<open>expire = cache_expiry\<close>, is the parsed
  list (without the two excluded address patterns) from which the proxies recorded as
  bad at that moment have been removed; it is what the cache holds when the call ends.
\<close>

theorem cached_list_is_filtered_by_bad_proxies:
  assumes "reaches_fetch e s" and "proxy_url self = Some url"
    and "live (now e) (http_proxies_requested s) = None"
    and "source e = JsonArray rs" and "parse rs = Inr parsed"
  shows "http_proxies_requested (snd (get_proxy self e s))
           = Some (filter (\<lambda>p. p \<notin> get_bad_proxies e s) parsed, Some (now e + cache_expiry self))
         \<and> CacheSetList (filter (\<lambda>p. p \<notin> get_bad_proxies e s) parsed) (Some (cache_expiry self))
             \<in> set (emitted s (snd (get_proxy self e s)))"
proof -
  let ?s0 = "after_revalidation e s"
  let ?cs = "filter (\<lambda>p. p \<notin> get_bad_proxies e s) parsed"
  let ?s3 = "fresh_state self e url ?cs ?s0"
  let ?ps = "slice_to ?cs (batch_size self)"
  have c: "live (now e) (http_proxies_requested ?s0) = None"
    using assms(3) by (simp add: after_revalidation_simps)
  have f: "snd (get_proxy self e s) = snd (test_proxies self e ?ps ?s3)"
    using fetch_proxy_fresh[OF assms(2) c assms(4,5)]
    by (simp add: get_proxy_after_revalidation[OF assms(1)] after_revalidation_simps
          split: prod.splits)
  obtain es where k: "kept ?s3 (snd (test_proxies self e ?ps ?s3)) es"
    using test_proxies_effects[of ?s3 self e ?ps] by blast
  have "http_proxies_requested (snd (get_proxy self e s)) = Some (?cs, Some (now e + cache_expiry self))"
    using k unfolding f by (simp add: kept_def fresh_state_simps)
  moreover have "trace (snd (get_proxy self e s))
      = trace s @ revalidation_events e s @ fresh_events self url ?cs @ es"
    using k unfolding f by (simp add: kept_def fresh_state_simps after_revalidation_simps)
  then have "CacheSetList ?cs (Some (cache_expiry self)) \<in> set (emitted s (snd (get_proxy self e s)))"
    by (simp add: emitted_def fresh_events_def)
  ultimately show ?thesis by simp
qed

theorem cached_list_is_filtered_by_bad_proxies_witness:
  "http_proxies_requested (snd (get_proxy
        \<lparr>proxy_url = Some ''http://list'', batch_size = 1000, cache_expiry = 86400\<rparr>
        (steady (JsonArray [[(''proxy'', ''1.2.3.4:8080'')], [(''proxy'', ''5.6.7.8:3128'')]]) Failed)
        (empty_cache\<lparr>bad_proxies := Some ({''1.2.3.4:8080''}, None)\<rparr>)))
     = Some ([''5.6.7.8:3128''], Some 86400)
   \<and> CacheSetList [''5.6.7.8:3128''] (Some 86400)
       \<in> set (emitted (empty_cache\<lparr>bad_proxies := Some ({''1.2.3.4:8080''}, None)\<rparr>)
           (snd (get_proxy
             \<lparr>proxy_url = Some ''http://list'', batch_size = 1000, cache_expiry = 86400\<rparr>
             (steady (JsonArray [[(''proxy'', ''1.2.3.4:8080'')], [(''proxy'', ''5.6.7.8:3128'')]]) Failed)
             (empty_cache\<lparr>bad_proxies := Some ({''1.2.3.4:8080''}, None)\<rparr>))))"
proof -
  let ?rs = "[[(''proxy'', ''1.2.3.4:8080'')], [(''proxy'', ''5.6.7.8:3128'')]]"
  let ?e = "steady (JsonArray ?rs) Failed"
  let ?s = "empty_cache\<lparr>bad_proxies := Some ({''1.2.3.4:8080''}, None)\<rparr>"
  let ?self = "\<lparr>proxy_url = Some ''http://list'', batch_size = 1000, cache_expiry = 86400\<rparr>"
  have h1: "reaches_fetch ?e ?s" by (simp add: reaches_fetch_def steady_def empty_cache_def)
  have h2: "proxy_url ?self = Some ''http://list''" by simp
  have h3: "live (now ?e) (http_proxies_requested ?s) = None"
    by (simp add: steady_def empty_cache_def)
  have h4: "source ?e = JsonArray ?rs" by (simp add: steady_def)
  have h5: "parse ?rs = Inr [''1.2.3.4:8080'', ''5.6.7.8:3128'']" by simp
  have b: "get_bad_proxies ?e ?s = {''1.2.3.4:8080''}"
    by (simp add: get_bad_proxies_def steady_def empty_cache_def)
  have n: "now ?e = 0" by (simp add: steady_def)
  show ?thesis
    using cached_list_is_filtered_by_bad_proxies[OF h1 h2 h3 h4 h5]
    unfolding b n by simp
qed

subsection \<open>The proxies that are tested\<close>

lemma test_proxies_attempts:
  "\<exists>es k. trace (snd (test_proxies self e ps s)) = trace s @ es
     \<and> attempted es = take k ps \<and> int k \<le> max 0 (max_attempts_of self ps)
     \<and> (batch_size self \<le> int (length ps) \<longrightarrow> batches es = [ps] \<and> checked es = ps @ attempted es)
     \<and> (int (length ps) < batch_size self \<longrightarrow> batches es = [] \<and> checked es = attempted es)"
proof (cases "batch_size self \<le> int (length ps)")
  case False
  obtain es k where q: "kept s (snd (sequential e (max_attempts_of self ps) 0 ps s)) es"
    "batches es = []" "checked es = attempted es" "attempted es = take k ps"
    "int k \<le> max 0 (max_attempts_of self ps - int 0)"
    using sequential_effects[of s e "max_attempts_of self ps" 0 ps] by blast
  have tp: "test_proxies self e ps s = sequential e (max_attempts_of self ps) 0 ps s"
    using False by (simp add: test_proxies_def)
  show ?thesis unfolding tp
    by (intro exI[of _ es] exI[of _ k]) (use q False in \<open>simp add: kept_def\<close>)
next
  case True
  obtain r sb where tb: "test_proxy_batch e ps s = (r, sb)"
    by (cases "test_proxy_batch e ps s")
  obtain xs where b: "kept s sb xs" "batches xs = [ps]" "checked xs = ps" "attempted xs = []"
    using test_proxy_batch_effects[of s e ps] tb by auto
  show ?thesis
  proof (cases "truthy r")
    case t: True
    have tp: "snd (test_proxies self e ps s) = sb"
      using True t tb by (simp add: test_proxies_def)
    show ?thesis unfolding tp
      by (intro exI[of _ xs] exI[of _ 0]) (use b True in \<open>simp add: kept_def\<close>)
  next
    case t: False
    have tp: "test_proxies self e ps s = sequential e (max_attempts_of self ps) 0 ps sb"
      using True t tb by (simp add: test_proxies_def)
    obtain ys k where q: "kept sb (snd (sequential e (max_attempts_of self ps) 0 ps sb)) ys"
      "batches ys = []" "checked ys = attempted ys" "attempted ys = take k ps"
      "int k \<le> max 0 (max_attempts_of self ps - int 0)"
      using sequential_effects[of sb e "max_attempts_of self ps" 0 ps] by blast
    show ?thesis unfolding tp
      by (intro exI[of _ "xs @ ys"] exI[of _ k])
         (use b q True in \<open>simp add: kept_def log_append\<close>)
  qed
qed

lemma set_slice_to: "set (slice_to xs n) \<subseteq> set xs"
  by (simp add: slice_to_def set_take_subset)

lemma fetch_proxy_fresh_trace:
  assumes "proxy_url self = Some url" "live (now e) (http_proxies_requested s) = None"
    "source e = JsonArray rs" "parse rs = Inr parsed"
    "cs = filter (\<lambda>p. p \<notin> get_bad_proxies e s) parsed" "ps = slice_to cs (batch_size self)"
  shows "\<exists>es k. emitted s (snd (fetch_proxy self e s)) = fresh_events self url cs @ es
     \<and> attempted es = take k ps \<and> int k \<le> max 0 (max_attempts_of self ps)
     \<and> (batch_size self \<le> int (length ps) \<longrightarrow> batches es = [ps] \<and> checked es = ps @ attempted es)
     \<and> (int (length ps) < batch_size self \<longrightarrow> batches es = [] \<and> checked es = attempted es)"
proof -
  let ?s3 = "fresh_state self e url cs s"
  have f: "snd (fetch_proxy self e s) = snd (test_proxies self e ps ?s3)"
    using fetch_proxy_fresh[OF assms(1-4)] assms(5,6) by (simp split: prod.splits)
  obtain es k where t: "trace (snd (test_proxies self e ps ?s3)) = trace ?s3 @ es"
     "attempted es = take k ps" "int k \<le> max 0 (max_attempts_of self ps)"
     "batch_size self \<le> int (length ps) \<longrightarrow> batches es = [ps] \<and> checked es = ps @ attempted es"
     "int (length ps) < batch_size self \<longrightarrow> batches es = [] \<and> checked es = attempted es"
    using test_proxies_attempts[of self e ps ?s3] by blast
  have "emitted s (snd (fetch_proxy self e s)) = fresh_events self url cs @ es"
    unfolding f using t(1) by (simp add: emitted_def fresh_state_simps)
  then show ?thesis using t(2-5) by blast
qed

lemma startswith_contains: "startswith n h \<Longrightarrow> contains n h"
  by (cases h) auto

lemma parse_excludes:
  "parse rs = Inr ps \<Longrightarrow> p \<in> set ps \<Longrightarrow> \<not> contains ''172.67'' p \<and> \<not> contains ''172.64'' p"
proof (induction rs arbitrary: ps)
  case Nil
  then show ?case by simp
next
  case (Cons r rs)
  then show ?case
    by (auto split: option.splits sum.splits if_splits)
qed


text \<open>
  C4. When the list is fetched, no proxy whose string contains \<^verbatim>\<open>172.67\<close> or
  \<^verbatim>\<open>172.64\<close>, and so none that starts with one of them, is ever handed to the
  liveness check by \<^verbatim>\<open>_fetch_proxy\<close>. With an empty cache, the source reply
  \<^verbatim>\<open>[{"proxy":"1.2.3.4:8080"}, {"proxy":"172.67.1.1:8080"}]\<close> and a batch size of 10,
  the second entry is dropped by the parsing and \<^verbatim>\<open>1.2.3.4:8080\<close> is the only proxy
  \<^verbatim>\<open>get_proxy\<close> tests, whatever the proxies do.
\<close>

theorem excluded_addresses_are_never_tested:
  "(proxy_url self = Some url \<and> live (now e) (http_proxies_requested s) = None
      \<and> source e = JsonArray rs \<longrightarrow>
      (\<forall>p \<in> set (checked (emitted s (snd (fetch_proxy self e s)))).
          \<not> contains ''172.67'' p \<and> \<not> contains ''172.64'' p
          \<and> \<not> startswith ''172.67'' p \<and> \<not> startswith ''172.64'' p))
   \<and> (proxy_url self = Some url \<and> batch_size self = 10
      \<and> source e = JsonArray [[(''proxy'', ''1.2.3.4:8080'')], [(''proxy'', ''172.67.1.1:8080'')]] \<longrightarrow>
      parse [[(''proxy'', ''1.2.3.4:8080'')], [(''proxy'', ''172.67.1.1:8080'')]] = Inr [''1.2.3.4:8080'']
      \<and> checked (emitted empty_cache (snd (get_proxy self e empty_cache))) = [''1.2.3.4:8080''])"
proof (intro conjI impI)
  assume a: "proxy_url self = Some url \<and> live (now e) (http_proxies_requested s) = None
      \<and> source e = JsonArray rs"
  then have a1: "proxy_url self = Some url"
    and a2: "live (now e) (http_proxies_requested s) = None"
    and a3: "source e = JsonArray rs" by simp_all
  show "\<forall>p \<in> set (checked (emitted s (snd (fetch_proxy self e s)))).
          \<not> contains ''172.67'' p \<and> \<not> contains ''172.64'' p
          \<and> \<not> startswith ''172.67'' p \<and> \<not> startswith ''172.64'' p"
  proof (cases "parse rs")
    case (Inl err)
    then have "emitted s (snd (fetch_proxy self e s)) = [HttpGet url]"
      using a by (simp add: fetch_proxy_raises emitted_def cache_ops)
    then show ?thesis by simp
  next
    case (Inr parsed)
    let ?cs = "filter (\<lambda>p. p \<notin> get_bad_proxies e s) parsed"
    let ?ps = "slice_to ?cs (batch_size self)"
    obtain es k where t: "emitted s (snd (fetch_proxy self e s)) = fresh_events self url ?cs @ es"
      "attempted es = take k ?ps"
      "batch_size self \<le> int (length ?ps) \<longrightarrow> checked es = ?ps @ attempted es"
      "int (length ?ps) < batch_size self \<longrightarrow> checked es = attempted es"
      using fetch_proxy_fresh_trace[OF a1 a2 a3 Inr refl refl] by blast
    have "set (checked es) \<subseteq> set ?ps"
      using t(2,3,4) set_take_subset[of k ?ps] by (cases "batch_size self \<le> int (length ?ps)") auto
    then have "set (checked (emitted s (snd (fetch_proxy self e s)))) \<subseteq> set parsed"
      using set_slice_to[of ?cs "batch_size self"]
      by (auto simp: t(1) log_append fresh_events_simps)
    then show ?thesis using parse_excludes[OF Inr] startswith_contains by blast
  qed
next
  show "parse [[(''proxy'', ''1.2.3.4:8080'')], [(''proxy'', ''172.67.1.1:8080'')]] = Inr [''1.2.3.4:8080'']"
    by simp
next
  assume a: "proxy_url self = Some url \<and> batch_size self = 10
      \<and> source e = JsonArray [[(''proxy'', ''1.2.3.4:8080'')], [(''proxy'', ''172.67.1.1:8080'')]]"
  show "checked (emitted empty_cache (snd (get_proxy self e empty_cache))) = [''1.2.3.4:8080'']"
    using a
    by (simp add: get_proxy_def fetch_proxy_def test_proxies_def max_attempts_of_def slice_to_def
          get_bad_proxies_def empty_cache_def Let_def cache_ops emitted_def)
qed

theorem excluded_addresses_are_never_tested_witness:
  "''172.67.1.1:8080'' \<notin> set (checked (emitted empty_cache (snd (fetch_proxy
        \<lparr>proxy_url = Some ''http://list'', batch_size = 10, cache_expiry = 86400\<rparr>
        (steady (JsonArray [[(''proxy'', ''1.2.3.4:8080'')], [(''proxy'', ''172.67.1.1:8080'')]])
           (Status 502))
        empty_cache))))
   \<and> checked (emitted empty_cache (snd (get_proxy
        \<lparr>proxy_url = Some ''http://list'', batch_size = 10, cache_expiry = 86400\<rparr>
        (steady (JsonArray [[(''proxy'', ''1.2.3.4:8080'')], [(''proxy'', ''172.67.1.1:8080'')]])
           (Status 502))
        empty_cache))) = [''1.2.3.4:8080'']"
proof -
  let ?rs = "[[(''proxy'', ''1.2.3.4:8080'')], [(''proxy'', ''172.67.1.1:8080'')]]"
  let ?e = "steady (JsonArray ?rs) (Status 502)"
  let ?self = "\<lparr>proxy_url = Some ''http://list'', batch_size = 10, cache_expiry = 86400\<rparr>"
  have h: "proxy_url ?self = Some ''http://list''" "batch_size ?self = 10"
    "live (now ?e) (http_proxies_requested empty_cache) = None" "source ?e = JsonArray ?rs"
    by (simp_all add: steady_def empty_cache_def)
  have c: "contains ''172.67'' ''172.67.1.1:8080''" by simp
  show ?thesis
    using excluded_addresses_are_never_tested[of ?self "''http://list''" ?e empty_cache ?rs] h c
    by blast
qed



subsection \<open>The cached working proxy\<close>

lemma live_SomeD: "live t w = Some q \<Longrightarrow> \<exists>x. w = Some (q, x)"
  by (cases "(t, w)" rule: live.cases) (auto split: if_splits)

lemma calls_follows: "\<exists>xs. follows s (snd (calls self es s)) xs"
proof (induction es arbitrary: s)
  case Nil
  show ?case by (rule exI[of _ "[]"]) (simp add: follows_def)
next
  case (Cons e es)
  obtain r s1 where g: "get_proxy self e s = (r, s1)" by (cases "get_proxy self e s")
  obtain xs where x: "follows s s1 xs" using get_proxy_effects[of s self e] g by auto
  obtain ys where y: "follows s1 (snd (calls self es s1)) ys" using Cons.IH[of s1] by blast
  have "snd (calls self (e # es) s) = snd (calls self es s1)"
    using g by (simp split: prod.splits)
  then show ?case using follows_trans[OF x y] by auto
qed

text \<open>
  C7. When a working proxy is cached and its revalidation fails, \<^verbatim>\<open>get_proxy\<close>
  deletes \<^verbatim>\<open>working_proxy\<close> and goes on with \<^verbatim>\<open>_fetch_proxy\<close>; at the end of the
  call and after any number of later calls, a read of \<^verbatim>\<open>working_proxy\<close> finds a proxy
  only if that proxy has been seen working since the deletion.
\<close>

theorem unhealthy_cached_proxy_is_deleted:
  assumes "live (now e) (working_proxy s) = Some p"
    and "\<not> snd (test_single_proxy (probe_cached e p) p)"
  shows "get_proxy self e s
           = fetch_proxy self e (cache_delete WorkingProxy (emit (Revalidate p False) s))
     \<and> take 2 (emitted s (snd (get_proxy self e s))) = [Revalidate p False, CacheDelete WorkingProxy]
     \<and> (\<forall>es t q. live t (working_proxy (snd (calls self es (snd (get_proxy self e s))))) = Some q
           \<longrightarrow> seen_working q (emitted s (snd (calls self es (snd (get_proxy self e s))))))"
proof -
  let ?s1 = "cache_delete WorkingProxy (emit (Revalidate p False) s)"
  let ?pre = "[Revalidate p False, CacheDelete WorkingProxy]"
  have g: "get_proxy self e s = fetch_proxy self e ?s1"
    using assms by (simp add: get_proxy_def Let_def)
  have t1: "trace ?s1 = trace s @ ?pre" by (simp add: cache_ops)
  have w1: "working_proxy ?s1 = None" by (simp add: cache_ops)
  obtain xs where x: "trace (snd (fetch_proxy self e ?s1)) = trace ?s1 @ xs"
     "working_proxy (snd (fetch_proxy self e ?s1)) = working_proxy ?s1
        \<or> (\<exists>q. working_proxy (snd (fetch_proxy self e ?s1)) = Some (q, None) \<and> seen_working q xs)"
    using fetch_proxy_effects[of self e ?s1] by blast
  have fx: "follows ?s1 (snd (fetch_proxy self e ?s1)) xs"
    using x by (auto simp: follows_def)
  have second: "take 2 (emitted s (snd (get_proxy self e s))) = ?pre"
    unfolding g using x(1) t1 by (simp add: emitted_def)
  have third: "seen_working q (emitted s (snd (calls self es (snd (get_proxy self e s)))))"
    if l: "live t (working_proxy (snd (calls self es (snd (get_proxy self e s))))) = Some q"
    for es t q
  proof -
    let ?s2 = "snd (fetch_proxy self e ?s1)"
    let ?s3 = "snd (calls self es ?s2)"
    obtain ys where y: "follows ?s2 ?s3 ys" using calls_follows[of ?s2 self es] by blast
    have f: "follows ?s1 ?s3 (xs @ ys)" using follows_trans[OF fx y] .
    obtain x where sl: "working_proxy ?s3 = Some (q, x)"
      using live_SomeD[OF l[unfolded g]] by blast
    have sw: "seen_working q (xs @ ys)"
      using f sl unfolding follows_def w1 by auto
    have "emitted s ?s3 = ?pre @ xs @ ys"
      using f t1 by (simp only: follows_def emitted_def) simp
    then show ?thesis unfolding g using sw by (auto simp: seen_working_def)
  qed
  show ?thesis using g second third by blast
qed

theorem unhealthy_cached_proxy_is_deleted_witness:
  "live (now (recovering (JsonArray [[(''proxy'', ''1.2.3.4:8080'')]])))
        (working_proxy (empty_cache\<lparr>working_proxy := Some (''5.6.7.8:3128'', None)\<rparr>))
     = Some ''5.6.7.8:3128''
   \<and> take 2 (emitted (empty_cache\<lparr>working_proxy := Some (''5.6.7.8:3128'', None)\<rparr>)
        (snd (get_proxy \<lparr>proxy_url = Some ''http://list'', batch_size = 1000, cache_expiry = 86400\<rparr>
           (recovering (JsonArray [[(''proxy'', ''1.2.3.4:8080'')]]))
           (empty_cache\<lparr>working_proxy := Some (''5.6.7.8:3128'', None)\<rparr>))))
     = [Revalidate ''5.6.7.8:3128'' False, CacheDelete WorkingProxy]
   \<and> seen_working ''1.2.3.4:8080''
       (emitted (empty_cache\<lparr>working_proxy := Some (''5.6.7.8:3128'', None)\<rparr>)
        (snd (calls \<lparr>proxy_url = Some ''http://list'', batch_size = 1000, cache_expiry = 86400\<rparr> []
          (snd (get_proxy \<lparr>proxy_url = Some ''http://list'', batch_size = 1000, cache_expiry = 86400\<rparr>
           (recovering (JsonArray [[(''proxy'', ''1.2.3.4:8080'')]]))
           (empty_cache\<lparr>working_proxy := Some (''5.6.7.8:3128'', None)\<rparr>))))))"
proof -
  let ?e = "recovering (JsonArray [[(''proxy'', ''1.2.3.4:8080'')]])"
  let ?s = "empty_cache\<lparr>working_proxy := Some (''5.6.7.8:3128'', None)\<rparr>"
  let ?self = "\<lparr>proxy_url = Some ''http://list'', batch_size = 1000, cache_expiry = 86400\<rparr>"
  have h1: "live (now ?e) (working_proxy ?s) = Some ''5.6.7.8:3128''"
    by (simp add: empty_cache_def)
  have h2: "\<not> snd (test_single_proxy (probe_cached ?e ''5.6.7.8:3128'') ''5.6.7.8:3128'')"
    by (simp add: recovering_def steady_def test_single_proxy_def)
  have l: "live 0 (working_proxy (snd (calls ?self [] (snd (get_proxy ?self ?e ?s)))))
             = Some ''1.2.3.4:8080''"
    by (simp add: run_defs cache_ops recovering_def)
  show ?thesis
    using h1 l unhealthy_cached_proxy_is_deleted[OF h1 h2, of ?self] by blast
qed

subsection \<open>The cached empty list\<close>

lemma live_later: "live t0 w = None \<Longrightarrow> t0 \<le> t \<Longrightarrow> live t w = None"
  by (cases "(t0, w)" rule: live.cases) (auto split: if_splits)

lemma test_proxies_Nil:
  "test_proxies self e [] s = (None, if batch_size self \<le> 0 then emit (BatchTest []) s else s)"
  by (simp add: test_proxies_def test_proxy_batch_def as_completed_def truthy_def Let_def)

lemma slice_to_Nil: "slice_to [] n = []"
  by (simp add: slice_to_def)

lemma get_proxy_empty_cached:
  assumes "proxy_url self = Some url"
    and "live (now x) (http_proxies_requested s) = Some []"
    and "live (now x) (working_proxy s) = None"
  shows "get_proxy self x s
           = (Inr None, if batch_size self \<le> 0 then emit (BatchTest []) s else s)"
  using assms
  by (simp add: get_proxy_def fetch_proxy_cached[OF assms(1,2)] slice_to_Nil test_proxies_Nil)

lemma calls_empty_cached:
  assumes "proxy_url self = Some url"
    and "http_proxies_requested s = Some ([], Some T)"
    and "\<forall>x\<in>set es. t0 \<le> now x \<and> now x < T"
    and "\<forall>t\<ge>t0. live t (working_proxy s) = None"
  shows "fst (calls self es s) = replicate (length es) (Inr None)
     \<and> (\<exists>xs. trace (snd (calls self es s)) = trace s @ xs \<and> fetches xs = [])"
  using assms(2,3,4)
proof (induction es arbitrary: s)
  case Nil
  show ?case by simp
next
  case (Cons x es)
  let ?s1 = "if batch_size self \<le> 0 then emit (BatchTest []) s else s"
  have t: "t0 \<le> now x" "now x < T" using Cons.prems(2) by simp_all
  have l: "live (now x) (http_proxies_requested s) = Some []"
    using Cons.prems(1) t(2) by simp
  have w: "live (now x) (working_proxy s) = None" using Cons.prems(3) t(1) by simp
  have g: "get_proxy self x s = (Inr None, ?s1)"
    using get_proxy_empty_cached[OF assms(1) l w] .
  have s1: "http_proxies_requested ?s1 = Some ([], Some T)"
    "\<forall>t\<ge>t0. live t (working_proxy ?s1) = None"
    using Cons.prems(1,3) by (simp_all add: emit_def)
  have r: "\<forall>x\<in>set es. t0 \<le> now x \<and> now x < T" using Cons.prems(2) by simp
  obtain xs where ih: "fst (calls self es ?s1) = replicate (length es) (Inr None)"
    "trace (snd (calls self es ?s1)) = trace ?s1 @ xs" "fetches xs = []"
    using Cons.IH[OF s1(1) r s1(2)] by blast
  obtain ys where y: "trace ?s1 = trace s @ ys" "fetches ys = []"
    by (cases "batch_size self \<le> 0") (simp_all add: emit_def)
  have c: "calls self (x # es) s
             = (Inr None # fst (calls self es ?s1), snd (calls self es ?s1))"
    by (simp only: calls.simps g) (simp split: prod.splits)
  have "trace (snd (calls self (x # es) s)) = trace s @ (ys @ xs)" "fetches (ys @ xs) = []"
    using ih(2,3) y by (simp_all only: c snd_conv fetches_append) simp_all
  moreover have "fst (calls self (x # es) s) = replicate (length (x # es)) (Inr None)"
    using ih(1) by (simp only: c fst_conv) simp
  ultimately show ?case by blast
qed

text \<open>
  C10. When a fetch yields a list that is empty after filtering, the call returns
  \<^verbatim>\<open>None\<close>, and right after deleting \<^verbatim>\<open>http_proxies_requested\<close> it writes the empty
  list under that key with \<^verbatim>\<open>expire = cache_expiry\<close>. Every later call of
  \<^verbatim>\<open>get_proxy\<close> made before that expiry time returns \<^verbatim>\<open>None\<close> and sends no request
  to the list source.
\<close>

theorem empty_list_is_cached:
  assumes "reaches_fetch e s" and "proxy_url self = Some url"
    and "live (now e) (http_proxies_requested s) = None"
    and "source e = JsonArray rs" and "parse rs = Inr parsed"
    and "filter (\<lambda>p. p \<notin> get_bad_proxies e s) parsed = []"
  shows "fst (get_proxy self e s) = Inr None
     \<and> http_proxies_requested (snd (get_proxy self e s))
          = Some ([], Some (now e + cache_expiry self))
     \<and> (\<exists>xs ys. emitted s (snd (get_proxy self e s))
          = xs @ [HttpGet url, CacheDelete HttpProxiesRequested,
                  CacheSetList [] (Some (cache_expiry self))] @ ys
          \<and> fetches xs = [] \<and> fetches ys = [])
     \<and> (\<forall>es. (\<forall>x\<in>set es. now e \<le> now x \<and> now x < now e + cache_expiry self) \<longrightarrow>
           fst (calls self es (snd (get_proxy self e s))) = replicate (length es) (Inr None)
           \<and> fetches (emitted (snd (get_proxy self e s))
                 (snd (calls self es (snd (get_proxy self e s))))) = [])"
proof -
  let ?s0 = "after_revalidation e s"
  let ?s3 = "fresh_state self e url [] ?s0"
  let ?s4 = "if batch_size self \<le> 0 then emit (BatchTest []) ?s3 else ?s3"
  let ?T = "now e + cache_expiry self"
  have c: "live (now e) (http_proxies_requested ?s0) = None"
    using assms(3) by (simp add: after_revalidation_simps)
  have cs: "filter (\<lambda>p. p \<notin> get_bad_proxies e ?s0) parsed = []"
    using assms(6) by (simp add: after_revalidation_simps)
  have g: "get_proxy self e s = (Inr None, ?s4)"
    using fetch_proxy_fresh[OF assms(2) c assms(4,5)]
    by (simp add: get_proxy_after_revalidation[OF assms(1)] cs slice_to_Nil test_proxies_Nil)
  have h: "http_proxies_requested ?s4 = Some ([], Some ?T)"
    by (simp add: fresh_state_simps emit_def)
  have w0: "\<forall>t\<ge>now e. live t (working_proxy ?s0) = None"
    using assms(1) live_later[of "now e" "working_proxy s"]
    by (auto simp: after_revalidation_def reaches_fetch_def cache_ops split: option.splits)
  have w: "\<forall>t\<ge>now e. live t (working_proxy ?s4) = None"
    using w0 by (simp add: fresh_state_simps emit_def)
  have tr: "trace ?s4 = trace s @ revalidation_events e s
      @ [HttpGet url, CacheDelete HttpProxiesRequested, CacheSetList [] (Some (cache_expiry self))]
      @ (if batch_size self \<le> 0 then [BatchTest []] else [])"
    by (simp add: fresh_state_simps fresh_events_def after_revalidation_simps emit_def)
  have ev: "\<exists>xs ys. emitted s ?s4
          = xs @ [HttpGet url, CacheDelete HttpProxiesRequested,
                  CacheSetList [] (Some (cache_expiry self))] @ ys
          \<and> fetches xs = [] \<and> fetches ys = []"
    apply (rule exI[of _ "revalidation_events e s"])
    apply (rule exI[of _ "if batch_size self \<le> 0 then [BatchTest []] else []"])
    using tr by (simp add: emitted_def revalidation_events_simps)
  have later: "fst (calls self es ?s4) = replicate (length es) (Inr None)
           \<and> fetches (emitted ?s4 (snd (calls self es ?s4))) = []"
    if b: "\<forall>x\<in>set es. now e \<le> now x \<and> now x < ?T" for es
  proof -
    obtain xs where "fst (calls self es ?s4) = replicate (length es) (Inr None)"
      "trace (snd (calls self es ?s4)) = trace ?s4 @ xs" "fetches xs = []"
      using calls_empty_cached[OF assms(2) h b w] by blast
    then show ?thesis by (simp add: emitted_def)
  qed
  show ?thesis
    unfolding g fst_conv snd_conv using h ev later by blast
qed

theorem empty_list_is_cached_witness:
  "http_proxies_requested (snd (get_proxy
        \<lparr>proxy_url = Some ''http://list'', batch_size = 1000, cache_expiry = 86400\<rparr>
        (steady (JsonArray [[(''proxy'', ''172.64.0.1:80'')]]) Failed) empty_cache))
     = Some ([], Some 86400)
   \<and> fst (calls \<lparr>proxy_url = Some ''http://list'', batch_size = 1000, cache_expiry = 86400\<rparr>
        [(steady (JsonArray [[(''proxy'', ''1.2.3.4:8080'')]]) (Status 200))\<lparr>now := 3600\<rparr>,
         (steady (JsonArray [[(''proxy'', ''1.2.3.4:8080'')]]) (Status 200))\<lparr>now := 86399\<rparr>]
        (snd (get_proxy
          \<lparr>proxy_url = Some ''http://list'', batch_size = 1000, cache_expiry = 86400\<rparr>
          (steady (JsonArray [[(''proxy'', ''172.64.0.1:80'')]]) Failed) empty_cache)))
     = [Inr None, Inr None]
   \<and> fetches (emitted
        (snd (get_proxy
          \<lparr>proxy_url = Some ''http://list'', batch_size = 1000, cache_expiry = 86400\<rparr>
          (steady (JsonArray [[(''proxy'', ''172.64.0.1:80'')]]) Failed) empty_cache))
        (snd (calls \<lparr>proxy_url = Some ''http://list'', batch_size = 1000, cache_expiry = 86400\<rparr>
          [(steady (JsonArray [[(''proxy'', ''1.2.3.4:8080'')]]) (Status 200))\<lparr>now := 3600\<rparr>,
           (steady (JsonArray [[(''proxy'', ''1.2.3.4:8080'')]]) (Status 200))\<lparr>now := 86399\<rparr>]
          (snd (get_proxy
            \<lparr>proxy_url = Some ''http://list'', batch_size = 1000, cache_expiry = 86400\<rparr>
            (steady (JsonArray [[(''proxy'', ''172.64.0.1:80'')]]) Failed) empty_cache))))) = []"
proof -
  let ?rs = "[[(''proxy'', ''172.64.0.1:80'')]]"
  let ?e = "steady (JsonArray ?rs) Failed"
  let ?self = "\<lparr>proxy_url = Some ''http://list'', batch_size = 1000, cache_expiry = 86400\<rparr>"
  let ?l = "steady (JsonArray [[(''proxy'', ''1.2.3.4:8080'')]]) (Status 200)"
  let ?es = "[?l\<lparr>now := 3600\<rparr>, ?l\<lparr>now := 86399\<rparr>]"
  have h1: "reaches_fetch ?e empty_cache"
    by (simp add: reaches_fetch_def steady_def empty_cache_def)
  have h2: "proxy_url ?self = Some ''http://list''" by simp
  have h3: "live (now ?e) (http_proxies_requested empty_cache) = None"
    by (simp add: steady_def empty_cache_def)
  have h4: "source ?e = JsonArray ?rs" by (simp add: steady_def)
  have h5: "parse ?rs = Inr []" by simp
  have h6: "filter (\<lambda>p. p \<notin> get_bad_proxies ?e empty_cache) [] = []" by simp
  have n: "now ?e = 0" by (simp add: steady_def)
  have b: "\<forall>x\<in>set ?es. now ?e \<le> now x \<and> now x < now ?e + cache_expiry ?self"
    by (simp add: n)
  have "http_proxies_requested (snd (get_proxy ?self ?e empty_cache)) = Some ([], Some 86400)"
    using empty_list_is_cached[OF h1 h2 h3 h4 h5 h6] by (simp add: n)
  moreover have "fst (calls ?self ?es (snd (get_proxy ?self ?e empty_cache)))
                   = replicate (length ?es) (Inr None)
     \<and> fetches (emitted (snd (get_proxy ?self ?e empty_cache))
          (snd (calls ?self ?es (snd (get_proxy ?self ?e empty_cache))))) = []"
    using empty_list_is_cached[OF h1 h2 h3 h4 h5 h6] b by blast
  ultimately show ?thesis by simp
qed

subsection \<open>Exceptions\<close>

lemma fetch_proxy_returns:
  assumes "proxy_url self = None \<or> live (now e) (http_proxies_requested s) \<noteq> None
           \<or> (\<exists>rs ps. source e = JsonArray rs \<and> parse rs = Inr ps)"
  shows "\<exists>r. fst (fetch_proxy self e s) = Inr r"
proof (cases "proxy_url self")
  case None
  then show ?thesis by (simp add: fetch_proxy_def)
next
  case (Some url)
  show ?thesis
  proof (cases "live (now e) (http_proxies_requested s)")
    case c: (Some cached)
    show ?thesis by (simp add: fetch_proxy_cached[OF Some c] split: prod.splits)
  next
    case c: None
    then obtain rs ps where "source e = JsonArray rs" "parse rs = Inr ps"
      using assms Some by auto
    then show ?thesis by (simp add: fetch_proxy_fresh[OF Some c] split: prod.splits)
  qed
qed

text \<open>
  C2, as the claim states it: \<^verbatim>\<open>get_proxy\<close> never raises. It fails when the list
  source cannot be reached: the exception of the request leaves \<^verbatim>\<open>get_proxy\<close>.
\<close>

theorem source_failure_is_raised:
  "fst (get_proxy \<lparr>proxy_url = Some ''http://list'', batch_size = 1000, cache_expiry = 86400\<rparr>
          (steady ConnectionFailed Failed) empty_cache) = Inl ClientError"
  by (simp add: run_defs cache_ops)

text \<open>
  C2, amended. Whatever the proxies do, \<^verbatim>\<open>get_proxy\<close> returns a proxy or \<^verbatim>\<open>None\<close>
  when it needs no fetch of the list (the cached proxy passes its revalidation, no
  source URL is configured, or a list is cached) or when the source replies with an array
  of objects that all have a \<^verbatim>\<open>proxy\<close> field: a failed liveness check never raises. A
  failure of the fetch is not caught: when the list has to be fetched and the request
  fails, the reply has no JSON content type or is not JSON, or an object lacks the
  \<^verbatim>\<open>proxy\<close> field, that exception leaves \<^verbatim>\<open>get_proxy\<close>. The cache operations are taken to
  succeed.
\<close>

theorem get_proxy_returns_unless_fetch_fails:
  "((\<not> reaches_fetch e s \<or> proxy_url self = None
       \<or> live (now e) (http_proxies_requested s) \<noteq> None
       \<or> (\<exists>rs ps. source e = JsonArray rs \<and> parse rs = Inr ps))
      \<longrightarrow> (\<exists>r. fst (get_proxy self e s) = Inr r))
   \<and> (reaches_fetch e s \<and> proxy_url self \<noteq> None
        \<and> live (now e) (http_proxies_requested s) = None \<longrightarrow>
        (source e = ConnectionFailed \<longrightarrow> fst (get_proxy self e s) = Inl ClientError)
      \<and> (source e = WrongContentType \<longrightarrow> fst (get_proxy self e s) = Inl ContentTypeError)
      \<and> (source e = InvalidJSON \<longrightarrow> fst (get_proxy self e s) = Inl JSONDecodeError)
      \<and> (\<forall>rs. source e = JsonArray rs \<and> parse rs = Inl KeyError
            \<longrightarrow> fst (get_proxy self e s) = Inl KeyError))"
proof (intro conjI impI allI)
  assume a: "\<not> reaches_fetch e s \<or> proxy_url self = None
       \<or> live (now e) (http_proxies_requested s) \<noteq> None
       \<or> (\<exists>rs ps. source e = JsonArray rs \<and> parse rs = Inr ps)"
  show "\<exists>r. fst (get_proxy self e s) = Inr r"
  proof (cases "reaches_fetch e s")
    case False
    then show ?thesis using get_proxy_cached_works[OF False, of self] by auto
  next
    case True
    have "proxy_url self = None
           \<or> live (now e) (http_proxies_requested (after_revalidation e s)) \<noteq> None
           \<or> (\<exists>rs ps. source e = JsonArray rs \<and> parse rs = Inr ps)"
      using a True by (simp add: after_revalidation_simps)
    then show ?thesis
      unfolding get_proxy_after_revalidation[OF True] by (rule fetch_proxy_returns)
  qed
next
  assume a: "reaches_fetch e s \<and> proxy_url self \<noteq> None
        \<and> live (now e) (http_proxies_requested s) = None"
  then obtain url where u: "proxy_url self = Some url" by auto
  have c: "live (now e) (http_proxies_requested (after_revalidation e s)) = None"
    using a by (simp add: after_revalidation_simps)
  have g: "get_proxy self e s = fetch_proxy self e (after_revalidation e s)"
    using a by (simp add: get_proxy_after_revalidation)
  note r = fetch_proxy_raises[OF u c]
  show "source e = ConnectionFailed \<Longrightarrow> fst (get_proxy self e s) = Inl ClientError"
    by (simp add: g r(1))
  show "source e = WrongContentType \<Longrightarrow> fst (get_proxy self e s) = Inl ContentTypeError"
    by (simp add: g r(2))
  show "source e = InvalidJSON \<Longrightarrow> fst (get_proxy self e s) = Inl JSONDecodeError"
    by (simp add: g r(3))
  show "\<And>rs. source e = JsonArray rs \<and> parse rs = Inl KeyError
          \<Longrightarrow> fst (get_proxy self e s) = Inl KeyError"
    by (simp add: g r(4))
qed

theorem get_proxy_returns_unless_fetch_fails_witness:
  "fst (get_proxy \<lparr>proxy_url = Some ''http://list'', batch_size = 1000, cache_expiry = 86400\<rparr>
          (steady InvalidJSON Failed) empty_cache) = Inl JSONDecodeError
   \<and> \<not> isl (fst (get_proxy \<lparr>proxy_url = Some ''http://list'', batch_size = 1000, cache_expiry = 86400\<rparr>
          (steady (JsonArray [[(''proxy'', ''1.2.3.4:8080'')]]) Failed) empty_cache))"
proof -
  let ?self = "\<lparr>proxy_url = Some ''http://list'', batch_size = 1000, cache_expiry = 86400\<rparr>"
  let ?bad = "steady InvalidJSON Failed"
  let ?good = "steady (JsonArray [[(''proxy'', ''1.2.3.4:8080'')]]) Failed"
  have h: "reaches_fetch ?bad empty_cache" "proxy_url ?self \<noteq> None"
    "live (now ?bad) (http_proxies_requested empty_cache) = None" "source ?bad = InvalidJSON"
    by (simp_all add: reaches_fetch_def steady_def empty_cache_def)
  have a: "fst (get_proxy ?self ?bad empty_cache) = Inl JSONDecodeError"
    using get_proxy_returns_unless_fetch_fails[of ?bad empty_cache ?self] h by blast
  have p: "source ?good = JsonArray [[(''proxy'', ''1.2.3.4:8080'')]]"
    "parse [[(''proxy'', ''1.2.3.4:8080'')]] = Inr [''1.2.3.4:8080'']"
    by (simp_all add: steady_def)
  have "\<exists>r. fst (get_proxy ?self ?good empty_cache) = Inr r"
    using get_proxy_returns_unless_fetch_fails[of ?good empty_cache ?self] p by blast
  then have b: "\<not> isl (fst (get_proxy ?self ?good empty_cache))" by auto
  show ?thesis using a b by simp
qed

end
